theory Spec2Isabelle
  imports Main "HOL-Library.Sublist"
begin

section \<open>result.ts: the two-variant outcome carrier\<close>

text \<open>
  \<^verbatim>\<open>type Result<E, A> = Failure<E> | Success<A>\<close>: a tagged union whose two
  variants both store their payload in a field called \<^verbatim>\<open>value\<close>.
\<close>

datatype ('e, 'a) Result = Failure 'e | Success 'a

definition failure :: "'e \<Rightarrow> ('e, 'a) Result" where
  "failure v = Failure v"

definition success :: "'a \<Rightarrow> ('e, 'a) Result" where
  "success v = Success v"

fun isFailure :: "('e, 'a) Result \<Rightarrow> bool" where
  "isFailure (Failure e) = True"
| "isFailure (Success a) = False"

fun isSuccess :: "('e, 'a) Result \<Rightarrow> bool" where
  "isSuccess (Success a) = True"
| "isSuccess (Failure e) = False"

text \<open>
  \<^verbatim>\<open>map(result, f)\<close>: a failure is handed back as it is (at the other payload
  type), a success has \<^verbatim>\<open>f\<close> applied to its payload.
\<close>

fun R_map :: "('e, 'a) Result \<Rightarrow> ('a \<Rightarrow> 'b) \<Rightarrow> ('e, 'b) Result" where
  "R_map (Failure e) f = Failure e"
| "R_map (Success a) f = success (f a)"

text \<open>
  \<^verbatim>\<open>matchResult(onFailure, onSuccess)(value)\<close>.
\<close>

fun matchResult :: "('e \<Rightarrow> 'b) \<Rightarrow> ('a \<Rightarrow> 'b) \<Rightarrow> ('e, 'a) Result \<Rightarrow> 'b" where
  "matchResult onFailure onSuccess (Failure e) = onFailure e"
| "matchResult onFailure onSuccess (Success a) = onSuccess a"

text \<open>
  \<^verbatim>\<open>all(results)\<close> is \<^verbatim>\<open>results.reduce(step, success([]))\<close>, a left fold. The
  step returns the accumulator when it is already a failure, and otherwise
  either turns the element's failure into the accumulator or appends the
  element's payload to the accumulated array.
\<close>

fun all_step :: "('e, 'a list) Result \<Rightarrow> ('e, 'a) Result \<Rightarrow> ('e, 'a list) Result" where
  "all_step (Failure e) val = Failure e"
| "all_step (Success total_value) val =
     matchResult (\<lambda>e. failure e) (\<lambda>a. success (total_value @ [a])) val"

definition all_Result :: "('e, 'a) Result list \<Rightarrow> ('e, 'a list) Result" where
  "all_Result results = foldl all_step (success []) results"

section \<open>index.ts: parsers\<close>

text \<open>
  \<^verbatim>\<open>type Error = string\<close>, \<^verbatim>\<open>type ParserResult<A> = R.Result<Error, [string, A]>\<close>
  and \<^verbatim>\<open>type ParserFunc<A> = (input: string) => ParserResult<A>\<close>.

  A JavaScript string is modelled as a list of characters, one per code
  unit; the code units covered are those of \<^typ>\<open>char\<close> (0 to 255). A
  parse function is a JavaScript function and need not return: the
  \<^verbatim>\<open>while (true)\<close> loops of the repetition combinators run for as long as the
  wrapped parser succeeds. A call that does not return has the value
  \<^const>\<open>None\<close>. The record \<^verbatim>\<open>Parser<A>\<close> has the constant tag
  \<^verbatim>\<open>type: "Parser"\<close> and the field \<^verbatim>\<open>parse\<close>; it is modelled by its
  \<^verbatim>\<open>parse\<close> field.

  Names are those of the source, except where a name is taken already:
  \<^verbatim>\<open>R.map\<close> is \<open>R_map\<close>, \<^verbatim>\<open>R.all\<close> is \<open>all_Result\<close>, the parser
  combinator \<^verbatim>\<open>map\<close> is \<open>map_Parser\<close>, and the parser \<^verbatim>\<open>attributes\<close> is
  \<open>attributes_Parser\<close> (\<open>attributes\<close> is the field of an element).
\<close>

type_synonym Error = string

type_synonym 'a ParserResult = "(Error, string \<times> 'a) Result"

type_synonym 'a Parser = "string \<Rightarrow> 'a ParserResult option"

definition makeParser :: "'a Parser \<Rightarrow> 'a Parser" where
  "makeParser parse = parse"

definition runParser :: "'a Parser \<Rightarrow> string \<Rightarrow> 'a ParserResult option" where
  "runParser parser input = parser input"

text \<open>
  \<^verbatim>\<open>splitString(input, length)\<close>: \<^verbatim>\<open>input.slice(0, length)\<close> is the first
  \<^verbatim>\<open>length\<close> code units, or all of the input when it is shorter;
  \<^verbatim>\<open>input.slice(length)\<close> is what follows them. The match is \<^verbatim>\<open>null\<close>
  (here \<^const>\<open>None\<close>) when fewer than \<^verbatim>\<open>length\<close> code units were there.
  Both callers pass a length that is a natural number (the constant 1 and
  the length of a string).
\<close>

definition splitString :: "string \<Rightarrow> nat \<Rightarrow> string option \<times> string" where
  "splitString input len =
     (let match = take len input;
          actualMatch = (if length match \<ge> len then Some match else None);
          rest = drop len input
      in (actualMatch, rest))"

definition anyChar :: "string Parser" where
  "anyChar = makeParser (\<lambda>input.
     case splitString input 1 of
       (match, rest) \<Rightarrow>
         (case match of
            Some m \<Rightarrow> Some (success (rest, m))
          | None \<Rightarrow> Some (failure input)))"

definition matchLiteral :: "string \<Rightarrow> string Parser" where
  "matchLiteral lit = makeParser (\<lambda>input.
     case splitString input (length lit) of
       (match, rest) \<Rightarrow>
         if match = Some lit then Some (success (rest, lit)) else Some (failure input))"

text \<open>
  \<^verbatim>\<open>map(parser, f)\<close>: \<^verbatim>\<open>R.map\<close> over the parser's result, with \<^verbatim>\<open>f\<close>
  applied to the second component of the success pair.
\<close>

definition map_Parser :: "'a Parser \<Rightarrow> ('a \<Rightarrow> 'b) \<Rightarrow> 'b Parser" where
  "map_Parser parser f = makeParser (\<lambda>input.
     case parser input of
       None \<Rightarrow> None
     | Some r \<Rightarrow> Some (R_map r (\<lambda>(rest, a). (rest, f a))))"

definition pair :: "'a Parser \<Rightarrow> 'b Parser \<Rightarrow> ('a \<times> 'b) Parser" where
  "pair parserA parserB = makeParser (\<lambda>input.
     case parserA input of
       None \<Rightarrow> None
     | Some (Failure e) \<Rightarrow> Some (Failure e)
     | Some (Success (rest, a)) \<Rightarrow>
         (case parserB rest of
            None \<Rightarrow> None
          | Some (Failure e) \<Rightarrow> Some (Failure e)
          | Some (Success (restB, b)) \<Rightarrow> Some (success (restB, (a, b)))))"

definition left :: "'a Parser \<Rightarrow> 'b Parser \<Rightarrow> 'a Parser" where
  "left parserA parserB = map_Parser (pair parserA parserB) (\<lambda>(a, _). a)"

definition right :: "'a Parser \<Rightarrow> 'b Parser \<Rightarrow> 'b Parser" where
  "right parserA parserB = map_Parser (pair parserA parserB) (\<lambda>(_, b). b)"

text \<open>
  The \<^verbatim>\<open>while (true)\<close> loop of \<^verbatim>\<open>oneOrMore\<close>, on its two variables
  \<^verbatim>\<open>next\<close> and \<^verbatim>\<open>results\<close>: it leaves through \<^verbatim>\<open>break\<close> at the first
  application that is not a success, and only there.
\<close>

partial_function (option) oneOrMore_loop ::
  "'a Parser \<Rightarrow> string \<Rightarrow> 'a list \<Rightarrow> 'a list ParserResult option" where
  "oneOrMore_loop parserA nxt results =
     (case parserA nxt of
        None \<Rightarrow> None
      | Some (Success (rest, a)) \<Rightarrow> oneOrMore_loop parserA rest (results @ [a])
      | Some (Failure e) \<Rightarrow> Some (success (nxt, results)))"

definition oneOrMore :: "'a Parser \<Rightarrow> 'a list Parser" where
  "oneOrMore parserA = makeParser (\<lambda>input.
     case parserA input of
       None \<Rightarrow> None
     | Some (Failure e) \<Rightarrow> Some (Failure e)
     | Some (Success (nxt, result)) \<Rightarrow> oneOrMore_loop parserA nxt [result])"

text \<open>
  The \<^verbatim>\<open>while (true)\<close> loop of \<^verbatim>\<open>zeroOrMore\<close>, which starts from the input
  and the empty array.
\<close>

partial_function (option) zeroOrMore_loop ::
  "'a Parser \<Rightarrow> string \<Rightarrow> 'a list \<Rightarrow> 'a list ParserResult option" where
  "zeroOrMore_loop parserA nxt results =
     (case parserA nxt of
        None \<Rightarrow> None
      | Some (Success (rest, a)) \<Rightarrow> zeroOrMore_loop parserA rest (results @ [a])
      | Some (Failure e) \<Rightarrow> Some (success (nxt, results)))"

definition zeroOrMore :: "'a Parser \<Rightarrow> 'a list Parser" where
  "zeroOrMore parserA = makeParser (\<lambda>input. zeroOrMore_loop parserA input [])"

definition pred :: "'a Parser \<Rightarrow> ('a \<Rightarrow> bool) \<Rightarrow> 'a Parser" where
  "pred parser predicate = makeParser (\<lambda>input.
     case parser input of
       None \<Rightarrow> None
     | Some (Failure e) \<Rightarrow> Some (Failure e)
     | Some (Success (rest, a)) \<Rightarrow>
         if predicate a then Some (success (rest, a)) else Some (failure input))"

text \<open>
  \<^verbatim>\<open>isAlphaNumeric(char)\<close> reads \<^verbatim>\<open>char.charCodeAt(0)\<close>, which is \<^verbatim>\<open>NaN\<close> on
  the empty string, where every comparison is false.
\<close>

definition isAlphaNumeric :: "string \<Rightarrow> bool" where
  "isAlphaNumeric chr =
     (case chr of
        [] \<Rightarrow> False
      | c # _ \<Rightarrow>
          (let code = (of_char c :: nat)
           in (code > 47 \<and> code < 58) \<or> (code > 64 \<and> code < 91) \<or> (code > 96 \<and> code < 123)))"

definition alphaNumeric :: "string Parser" where
  "alphaNumeric = pred anyChar isAlphaNumeric"

definition "identifier" :: "string Parser" where
  "identifier = map_Parser (oneOrMore alphaNumeric) (\<lambda>as. concat as)"

text \<open>
  \<^verbatim>\<open>String.prototype.trim\<close> removes white space and line terminators from
  both ends. Among the code units 0 to 255 these are tab, line feed,
  vertical tab, form feed, carriage return, space and no-break space.
\<close>

definition isWhiteSpace :: "char \<Rightarrow> bool" where
  "isWhiteSpace c = ((of_char c :: nat) \<in> {9, 10, 11, 12, 13, 32, 160})"

definition trim :: "string \<Rightarrow> string" where
  "trim s = rev (dropWhile isWhiteSpace (rev (dropWhile isWhiteSpace s)))"

definition whitespace :: "string Parser" where
  "whitespace = pred anyChar (\<lambda>a. trim a = [])"

definition space0 :: "string list Parser" where
  "space0 = zeroOrMore whitespace"

definition space1 :: "string list Parser" where
  "space1 = oneOrMore whitespace"

definition stringBetween :: "string \<Rightarrow> string \<Rightarrow> string Parser" where
  "stringBetween startChar endChar =
     map_Parser
       (right
          (matchLiteral startChar)
          (left
             (zeroOrMore (pred anyChar (\<lambda>c. c \<noteq> startChar \<and> c \<noteq> endChar)))
             (matchLiteral endChar)))
       (\<lambda>as. concat as)"

definition either :: "'a Parser \<Rightarrow> 'a Parser \<Rightarrow> 'a Parser" where
  "either parser1 parser2 = makeParser (\<lambda>input.
     case parser1 input of
       None \<Rightarrow> None
     | Some (Success v) \<Rightarrow> Some (Success v)
     | Some (Failure e) \<Rightarrow> parser2 input)"

definition andThen :: "'a Parser \<Rightarrow> ('a \<Rightarrow> 'b Parser) \<Rightarrow> 'b Parser" where
  "andThen parserA thenParserB = makeParser (\<lambda>input.
     case parserA input of
       None \<Rightarrow> None
     | Some (Failure e) \<Rightarrow> Some (Failure e)
     | Some (Success (nxt, a)) \<Rightarrow> thenParserB a nxt)"

section \<open>index.ts: the markup grammar\<close>

datatype Element =
  Element (name: string) (attributes: "(string \<times> string) list") (children: "Element list")

definition quotedString :: "string Parser" where
  "quotedString = stringBetween ''\"'' ''\"''"

definition attributePair :: "(string \<times> string) Parser" where
  "attributePair = pair identifier (right (matchLiteral ''='') quotedString)"

definition attributes_Parser :: "(string \<times> string) list Parser" where
  "attributes_Parser = zeroOrMore (right space1 attributePair)"

definition elementStart :: "(string \<times> (string \<times> string) list) Parser" where
  "elementStart = right (matchLiteral ''<'') (pair identifier attributes_Parser)"

definition singleElement :: "Element Parser" where
  "singleElement =
     map_Parser (left elementStart (matchLiteral ''/>''))
       (\<lambda>(nm, attrs). Element nm attrs [])"

definition openElement :: "Element Parser" where
  "openElement =
     map_Parser (left elementStart (matchLiteral ''>''))
       (\<lambda>(nm, attrs). Element nm attrs [])"

definition closeElement :: "string \<Rightarrow> string Parser" where
  "closeElement expectedName =
     pred
       (right (matchLiteral ''</'') (left identifier (matchLiteral ''>'')))
       (\<lambda>nm. nm = expectedName)"

subsection \<open>The recursive rule of the grammar\<close>

lemma option_ord_Some: "option_ord x y \<Longrightarrow> x = Some r \<Longrightarrow> y = Some r"
  by (auto simp: flat_ord_def)

lemma option_ord_None: "option_ord None y"
  by (simp add: flat_ord_def)

lemma option_ord_same: "option_ord x x"
  by (simp add: flat_ord_def)

lemmas parser_defs = makeParser_def success_def failure_def

text \<open>
  Each combinator is monotone in the parsers it is given: a parser that
  returns more often makes the composed parser return more often, with the
  same results. The recursive grammar rule below is defined on this ground.
\<close>

lemma either_mono [partial_function_mono]:
  assumes "\<And>s. mono_option (\<lambda>f. A f s)" and "\<And>s. mono_option (\<lambda>f. B f s)"
  shows "mono_option (\<lambda>f. either (A f) (B f) input)"
proof (rule monotoneI)
  fix f g :: "'a \<Rightarrow> 'b option"
  assume fg: "fun_ord option_ord f g"
  have a: "option_ord (A f input) (A g input)" using assms(1)[THEN monotoneD, OF fg] .
  have b: "option_ord (B f input) (B g input)" using assms(2)[THEN monotoneD, OF fg] .
  show "option_ord (either (A f) (B f) input) (either (A g) (B g) input)"
  proof (cases "A f input")
    case None
    then show ?thesis by (simp add: either_def parser_defs option_ord_None)
  next
    case (Some r)
    then have "A g input = Some r" using a by (rule option_ord_Some[rotated])
    with Some b show ?thesis
      by (cases r) (simp_all add: either_def parser_defs option_ord_same)
  qed
qed

lemma andThen_mono [partial_function_mono]:
  assumes "\<And>s. mono_option (\<lambda>f. A f s)" and "\<And>a s. mono_option (\<lambda>f. K f a s)"
  shows "mono_option (\<lambda>f. andThen (A f) (K f) input)"
proof (rule monotoneI)
  fix f g :: "'a \<Rightarrow> 'b option"
  assume fg: "fun_ord option_ord f g"
  have a: "option_ord (A f input) (A g input)" using assms(1)[THEN monotoneD, OF fg] .
  have b: "\<And>a s. option_ord (K f a s) (K g a s)" using assms(2)[THEN monotoneD, OF fg] .
  show "option_ord (andThen (A f) (K f) input) (andThen (A g) (K g) input)"
  proof (cases "A f input")
    case None
    then show ?thesis by (simp add: andThen_def parser_defs option_ord_None)
  next
    case (Some r)
    then have "A g input = Some r" using a by (rule option_ord_Some[rotated])
    with Some b show ?thesis
      by (cases r) (auto simp add: andThen_def parser_defs option_ord_same)
  qed
qed

lemma map_Parser_mono [partial_function_mono]:
  assumes "\<And>s. mono_option (\<lambda>f. A f s)"
  shows "mono_option (\<lambda>f. map_Parser (A f) h input)"
proof (rule monotoneI)
  fix f g :: "'a \<Rightarrow> 'b option"
  assume fg: "fun_ord option_ord f g"
  have a: "option_ord (A f input) (A g input)" using assms(1)[THEN monotoneD, OF fg] .
  show "option_ord (map_Parser (A f) h input) (map_Parser (A g) h input)"
  proof (cases "A f input")
    case None
    then show ?thesis by (simp add: map_Parser_def parser_defs option_ord_None)
  next
    case (Some r)
    then have "A g input = Some r" using a by (rule option_ord_Some[rotated])
    with Some show ?thesis
      by (simp add: map_Parser_def parser_defs option_ord_same)
  qed
qed

lemma pair_mono [partial_function_mono]:
  assumes "\<And>s. mono_option (\<lambda>f. A f s)" and "\<And>s. mono_option (\<lambda>f. B f s)"
  shows "mono_option (\<lambda>f. pair (A f) (B f) input)"
proof (rule monotoneI)
  fix f g :: "'a \<Rightarrow> 'b option"
  assume fg: "fun_ord option_ord f g"
  have a: "option_ord (A f input) (A g input)" using assms(1)[THEN monotoneD, OF fg] .
  have b: "\<And>s. option_ord (B f s) (B g s)" using assms(2)[THEN monotoneD, OF fg] .
  show "option_ord (pair (A f) (B f) input) (pair (A g) (B g) input)"
  proof (cases "A f input")
    case None
    then show ?thesis by (simp add: pair_def parser_defs option_ord_None)
  next
    case (Some r)
    then have ag: "A g input = Some r" using a by (rule option_ord_Some[rotated])
    show ?thesis
    proof (cases r)
      case (Failure e)
      with Some ag show ?thesis by (simp add: pair_def parser_defs option_ord_same)
    next
      case (Success v)
      obtain rest x where v: "v = (rest, x)" by (cases v)
      show ?thesis
      proof (cases "B f rest")
        case None
        with Some Success v show ?thesis by (simp add: pair_def parser_defs option_ord_None)
      next
        case (Some rb)
        then have "B g rest = Some rb" using b[of rest] by (rule option_ord_Some[rotated])
        with Some \<open>A f input = Some r\<close> ag Success v show ?thesis
          by (simp add: pair_def parser_defs option_ord_same)
      qed
    qed
  qed
qed

lemma left_mono [partial_function_mono]:
  assumes "\<And>s. mono_option (\<lambda>f. A f s)" and "\<And>s. mono_option (\<lambda>f. B f s)"
  shows "mono_option (\<lambda>f. left (A f) (B f) input)"
  unfolding left_def by (intro map_Parser_mono pair_mono assms)

lemma zeroOrMore_loop_le:
  assumes run: "zeroOrMore_loop p nxt results = Some y" and pq: "\<And>s. option_ord (p s) (q s)"
  shows "zeroOrMore_loop q nxt results = Some y"
proof -
  have "(\<forall>s. option_ord (p s) (q s)) \<longrightarrow> zeroOrMore_loop q nxt results = Some y"
  proof (rule zeroOrMore_loop.raw_induct
      [where P = "\<lambda>p nxt results y. (\<forall>s. option_ord (p s) (q s)) \<longrightarrow> zeroOrMore_loop q nxt results = Some y",
        OF _ run], goal_cases)
    case (1 loop p nxt results y)
    show ?case
    proof
      assume pq: "\<forall>s. option_ord (p s) (q s)"
      show "zeroOrMore_loop q nxt results = Some y"
      proof (cases "p nxt")
        case None
        with 1(2) show ?thesis by simp
      next
        case (Some r)
        then have q: "q nxt = Some r" using pq by (auto intro: option_ord_Some)
        show ?thesis
        proof (cases r)
          case (Failure e)
          with 1(2) Some q show ?thesis by (subst zeroOrMore_loop.simps) (simp add: parser_defs)
        next
          case (Success v)
          obtain rest a where v: "v = (rest, a)" by (cases v)
          from 1(2) Some Success v have "loop p rest (results @ [a]) = Some y" by simp
          then have "zeroOrMore_loop q rest (results @ [a]) = Some y" using 1(1) pq by blast
          with q Success v show ?thesis by (subst zeroOrMore_loop.simps) simp
        qed
      qed
    qed
  qed
  with pq show ?thesis by blast
qed

lemma zeroOrMore_mono [partial_function_mono]:
  assumes "\<And>s. mono_option (\<lambda>f. A f s)"
  shows "mono_option (\<lambda>f. zeroOrMore (A f) input)"
proof (rule monotoneI)
  fix f g :: "'a \<Rightarrow> 'b option"
  assume fg: "fun_ord option_ord f g"
  have a: "\<And>s. option_ord (A f s) (A g s)" using assms(1)[THEN monotoneD, OF fg] .
  show "option_ord (zeroOrMore (A f) input) (zeroOrMore (A g) input)"
    using zeroOrMore_loop_le[of "A f" _ _ _ "A g", OF _ a]
    by (cases "zeroOrMore_loop (A f) input []") (auto simp: zeroOrMore_def makeParser_def flat_ord_def)
qed

text \<open>
  \<^verbatim>\<open>element\<close> is a zero-argument function that builds
  \<^verbatim>\<open>either(singleElement, parentElement)\<close>, and the continuation inside
  \<^verbatim>\<open>parentElement\<close> calls \<^verbatim>\<open>element()\<close> again while parsing. The parse
  function of \<^verbatim>\<open>element()\<close> is therefore recursive; it is defined with the
  body of \<^verbatim>\<open>parentElement\<close> in place, and \<^verbatim>\<open>parentElement\<close> is named
  afterwards. The object spread \<^verbatim>\<open>{...el, children}\<close> keeps the name and
  the attributes of \<^verbatim>\<open>el\<close> and replaces its children.

  This definition is the recursion as the source writes it, with no bound
  on its depth; \<open>element_stack\<close> below is the same recursion on a call
  stack of bounded capacity.
\<close>

partial_function (option) element :: "string \<Rightarrow> Element ParserResult option" where
  "element input =
     either singleElement
       (andThen openElement
          (\<lambda>el. map_Parser (left (zeroOrMore element) (closeElement (name el)))
                  (\<lambda>children. Element (name el) (attributes el) children)))
       input"

definition parentElement :: "Element Parser" where
  "parentElement =
     andThen openElement
       (\<lambda>el. map_Parser (left (zeroOrMore element) (closeElement (name el)))
               (\<lambda>children. Element (name el) (attributes el) children))"

text \<open>
  The recursion of \<^verbatim>\<open>element()\<close> runs on the JavaScript call stack: every
  nesting level of the input adds the calls from one activation of
  \<^verbatim>\<open>element()\<close> to the next (through \<^verbatim>\<open>either\<close>, \<^verbatim>\<open>andThen\<close>, \<^verbatim>\<open>map\<close>,
  \<^verbatim>\<open>pair\<close> and \<^verbatim>\<open>zeroOrMore\<close>), none of them a tail call, and the source
  catches no exception. The capacity of the stack belongs to the engine and
  not to the source, so it is a parameter: \<open>element_stack d\<close> is
  \<^verbatim>\<open>element()\<close> on a stack that has room for \<open>d\<close> nested activations of
  \<^verbatim>\<open>element()\<close>. With no room left the call raises \<^verbatim>\<open>RangeError\<close> and
  returns no result, which is the value \<^const>\<open>None\<close>; every combinator passes
  \<^const>\<open>None\<close> on, as the uncaught exception passes through every caller.
  \<open>parentElement_of elem\<close> is \<^verbatim>\<open>parentElement\<close> with the parser it gets
  from \<^verbatim>\<open>element()\<close> as a parameter.
\<close>

definition parentElement_of :: "Element Parser \<Rightarrow> Element Parser" where
  "parentElement_of elem =
     andThen openElement
       (\<lambda>el. map_Parser (left (zeroOrMore elem) (closeElement (name el)))
               (\<lambda>children. Element (name el) (attributes el) children))"

primrec element_stack :: "nat \<Rightarrow> Element Parser" where
  "element_stack 0 = (\<lambda>input. None)"
| "element_stack (Suc d) = either singleElement (parentElement_of (element_stack d))"

section \<open>Properties of parsers\<close>

text \<open>
  A parser consumes when every success leaves a remainder strictly shorter
  than the input. It fails with its input when the error of every failure
  is the input it was invoked with. It is steady when it returns on every
  input and no success leaves a remainder longer than the input, and it
  makes progress when it returns on every input and consumes.
\<close>

definition consumes :: "'a Parser \<Rightarrow> bool" where
  "consumes p = (\<forall>input rest a. p input = Some (Success (rest, a)) \<longrightarrow> length rest < length input)"

definition fails_with_input :: "'a Parser \<Rightarrow> bool" where
  "fails_with_input p = (\<forall>input e. p input = Some (Failure e) \<longrightarrow> e = input)"

definition steady :: "'a Parser \<Rightarrow> bool" where
  "steady p = (\<forall>input. \<exists>r. p input = Some r \<and>
     (\<forall>rest a. r = Success (rest, a) \<longrightarrow> length rest \<le> length input))"

definition progress :: "'a Parser \<Rightarrow> bool" where
  "progress p = (\<forall>input. \<exists>r. p input = Some r \<and>
     (\<forall>rest a. r = Success (rest, a) \<longrightarrow> length rest < length input))"

lemma element_unfold: "element input = either singleElement parentElement input"
  unfolding parentElement_def by (rule element.simps)

section \<open>Properties of the result type\<close>

lemma foldl_all_step_Failure: "foldl all_step (Failure e) rs = Failure e"
  by (induction rs) simp_all

lemma foldl_all_step_Success:
  "foldl all_step (Success acc) (map Success vs) = Success (acc @ vs)"
  by (induction vs arbitrary: acc) (simp_all add: success_def)

lemma all_isSuccess_map: "(\<forall>r\<in>set rs. isSuccess r) \<Longrightarrow> \<exists>vs. rs = map Success vs"
proof (induction rs)
  case Nil
  then show ?case by simp
next
  case (Cons r rs)
  then obtain vs where "rs = map Success vs" by auto
  moreover from Cons.prems obtain a where "r = Success a" by (cases r) auto
  ultimately have "r # rs = map Success (a # vs)" by simp
  then show ?case by (rule exI)
qed

lemma all_Result_Success_only: "all_Result (map Success vs) = Success vs"
  using foldl_all_step_Success[of "[]" vs] by (simp add: all_Result_def success_def)

lemma all_Result_first_Failure:
  assumes "\<forall>r\<in>set pre. isSuccess r"
  shows "all_Result (pre @ Failure e # post) = Failure e"
proof -
  from assms obtain vs where "pre = map Success vs" using all_isSuccess_map by blast
  then show ?thesis
    by (simp add: all_Result_def success_def failure_def foldl_all_step_Success foldl_all_step_Failure)
qed

lemma not_all_isSuccess_split:
  "\<not> (\<forall>r\<in>set rs. isSuccess r) \<Longrightarrow>
   \<exists>pre e post. rs = pre @ Failure e # post \<and> (\<forall>r\<in>set pre. isSuccess r)"
proof (induction rs)
  case Nil
  then show ?case by simp
next
  case (Cons r rs)
  show ?case
  proof (cases r)
    case (Failure e)
    then have "r # rs = [] @ Failure e # rs \<and> (\<forall>r\<in>set []. isSuccess r)" by simp
    then show ?thesis by blast
  next
    case (Success a)
    with Cons.prems have "\<not> (\<forall>r\<in>set rs. isSuccess r)" by simp
    then obtain pre e post where "rs = pre @ Failure e # post" "\<forall>r\<in>set pre. isSuccess r"
      using Cons.IH by blast
    with Success have "r # rs = (r # pre) @ Failure e # post \<and> (\<forall>x\<in>set (r # pre). isSuccess x)" by simp
    then show ?thesis by blast
  qed
qed

text \<open>
  Claim C9. \<^verbatim>\<open>all(results)\<close> returns the success of the list of all payloads,
  in order, if and only if every element of \<^verbatim>\<open>results\<close> is a success;
  otherwise it returns the first failure met from the left (the failure
  that has only successes before it); and \<^verbatim>\<open>all([])\<close> is the success of the
  empty list.
\<close>

theorem all_collects_or_first_failure:
  fixes vs :: "'a list" and pre post results :: "('e, 'a) Result list" and e :: 'e
  shows
  "all_Result (map Success vs) = (Success vs :: ('e, 'a list) Result)
   \<and> ((\<forall>r\<in>set pre. isSuccess r) \<longrightarrow> all_Result (pre @ Failure e # post) = Failure e)
   \<and> ((\<exists>ws. all_Result results = Success ws) \<longleftrightarrow> (\<forall>r\<in>set results. isSuccess r))
   \<and> all_Result ([] :: ('e, 'a) Result list) = Success []"
proof (intro conjI)
  show "all_Result (map Success vs) = (Success vs :: ('e, 'a list) Result)"
    by (rule all_Result_Success_only)
  show "(\<forall>r\<in>set pre. isSuccess r) \<longrightarrow> all_Result (pre @ Failure e # post) = Failure e"
    by (simp add: all_Result_first_Failure)
  show "(\<exists>ws. all_Result results = Success ws) \<longleftrightarrow> (\<forall>r\<in>set results. isSuccess r)"
  proof
    assume ex: "\<exists>ws. all_Result results = Success ws"
    show "\<forall>r\<in>set results. isSuccess r"
    proof (rule ccontr)
      assume "\<not> (\<forall>r\<in>set results. isSuccess r)"
      then obtain pre e post where "results = pre @ Failure e # post" "\<forall>r\<in>set pre. isSuccess r"
        using not_all_isSuccess_split by blast
      then have "all_Result results = Failure e" by (simp add: all_Result_first_Failure)
      with ex show False by simp
    qed
  next
    assume "\<forall>r\<in>set results. isSuccess r"
    then obtain vs where "results = map Success vs" using all_isSuccess_map by blast
    then show "\<exists>ws. all_Result results = Success ws" by (simp add: all_Result_Success_only)
  qed
  show "all_Result ([] :: ('e, 'a) Result list) = Success []"
    by (simp add: all_Result_def success_def)
qed

theorem all_collects_or_first_failure_witness:
  "all_Result [Success (1::nat), Failure ''x'', Success 2, Failure ''y''] = Failure ''x''
   \<and> all_Result [Success (1::nat), Success 2 :: (string, nat) Result] = Success [1, 2]
   \<and> (\<exists>ws. all_Result [Success (1::nat), Success 2 :: (string, nat) Result] = Success ws)"
  using all_collects_or_first_failure
    [of "[1::nat, 2]" "[Success (1::nat)]" "''x''" "[Success 2, Failure ''y'']"
        "[Success (1::nat), Success 2 :: (string, nat) Result]"]
  by simp

section \<open>Properties of the primitives and combinators\<close>

lemma matchLiteral_eq:
  "matchLiteral lit input =
     Some (if take (length lit) input = lit then Success (drop (length lit) input, lit)
           else Failure input)"
  by (auto simp: matchLiteral_def splitString_def parser_defs Let_def)

lemma anyChar_eq:
  "anyChar input = Some (case input of [] \<Rightarrow> Failure [] | c # rest \<Rightarrow> Success (rest, [c]))"
  by (cases input) (auto simp: anyChar_def splitString_def parser_defs Let_def)


text \<open>
  Claim C3. \<^verbatim>\<open>either(parserA, parserB)\<close> is ordered choice with backtracking:
  when \<^verbatim>\<open>parserA\<close> succeeds on the input, \<^verbatim>\<open>either\<close> returns exactly that
  result (so also when both would succeed); when \<^verbatim>\<open>parserA\<close> fails, it returns
  what \<^verbatim>\<open>parserB\<close> returns on the input given to \<^verbatim>\<open>either\<close>, whatever the
  failure of \<^verbatim>\<open>parserA\<close> carried.
\<close>

theorem either_ordered_choice:
  "(parserA input = Some (Success v) \<longrightarrow> either parserA parserB input = Some (Success v))
   \<and> (parserA input = Some (Failure e) \<longrightarrow> either parserA parserB input = parserB input)"
  by (simp add: either_def makeParser_def)

theorem either_ordered_choice_witness:
  "either anyChar (matchLiteral ''ab'') ''abc'' = Some (Success (''bc'', ''a''))
   \<and> either (left (matchLiteral ''a'') (matchLiteral ''x'')) (matchLiteral ''ab'') ''abc''
       = Some (Success (''c'', ''ab''))"
  using either_ordered_choice [where parserA = anyChar and input = "''abc''" and v = "(''bc'', ''a'')"
        and parserB = "matchLiteral ''ab''"]
    either_ordered_choice
      [where parserA = "left (matchLiteral ''a'') (matchLiteral ''x'')" and input = "''abc''"
        and parserB = "matchLiteral ''ab''" and e = "''bc''"]
  by (simp add: anyChar_eq matchLiteral_eq left_def map_Parser_def pair_def parser_defs)

text \<open>
  Claim C4. \<^verbatim>\<open>pred(parser, predicate)\<close> backtracks when the predicate rejects:
  a failure of the inner parser is propagated as it is, and when the inner
  parser succeeds with a value that the predicate rejects, \<^verbatim>\<open>pred\<close> fails with
  exactly the input it was given, whatever the inner parser consumed.
\<close>

theorem pred_backtracks:
  "(parser input = Some (Failure e) \<longrightarrow> pred parser predicate input = Some (Failure e))
   \<and> (parser input = Some (Success (rest, a)) \<and> \<not> predicate a
        \<longrightarrow> pred parser predicate input = Some (Failure input))"
  by (simp add: pred_def parser_defs)

theorem pred_backtracks_witness:
  "pred (matchLiteral ''ab'') (\<lambda>a. False) ''abc'' = Some (Failure ''abc'')
   \<and> pred (pair anyChar (matchLiteral ''x'')) (\<lambda>a. True) ''abc'' = Some (Failure ''bc'')"
  using pred_backtracks [where parser = "matchLiteral ''ab''" and input = "''abc''" and rest = "''c''"
        and a = "''ab''" and predicate = "\<lambda>a. False"]
    pred_backtracks [where parser = "pair anyChar (matchLiteral ''x'')" and input = "''abc''"
        and e = "''bc''" and predicate = "\<lambda>a. True"]
  by (simp add: anyChar_eq matchLiteral_eq pair_def parser_defs)

lemma take_eq_drop_append:
  assumes "take n xs = ys"
  shows "xs = ys @ drop n xs"
  using append_take_drop_id[of n xs] unfolding assms by (rule sym)

lemma shorter_take_neq:
  assumes "length input < length lit"
  shows "take (length lit) input \<noteq> lit"
proof
  assume "take (length lit) input = lit"
  then have "length (take (length lit) input) = length lit" by (rule arg_cong)
  with assms show False by (simp only: length_take)
qed

text \<open>
  Claim C7. \<^verbatim>\<open>matchLiteral(lit)\<close> succeeds if and only if the first
  \<^verbatim>\<open>|lit|\<close> code units of the input are \<^verbatim>\<open>lit\<close>, and then it returns
  \<^verbatim>\<open>lit\<close> as the value and the input without those \<^verbatim>\<open>|lit|\<close> code units as
  the remainder; on any mismatch, and on every input strictly shorter than
  \<^verbatim>\<open>lit\<close>, it fails with the whole input as the error.
\<close>

theorem matchLiteral_exact:
  "((\<exists>rest v. matchLiteral lit input = Some (Success (rest, v)))
      \<longleftrightarrow> take (length lit) input = lit)
   \<and> (take (length lit) input = lit
        \<longrightarrow> matchLiteral lit input = Some (Success (drop (length lit) input, lit))
            \<and> input = lit @ drop (length lit) input)
   \<and> (take (length lit) input \<noteq> lit \<longrightarrow> matchLiteral lit input = Some (Failure input))
   \<and> (length input < length lit \<longrightarrow> matchLiteral lit input = Some (Failure input))"
proof (intro conjI impI)
  show "(\<exists>rest v. matchLiteral lit input = Some (Success (rest, v)))
      \<longleftrightarrow> take (length lit) input = lit"
    unfolding matchLiteral_eq by (cases "take (length lit) input = lit") simp_all
next
  assume t: "take (length lit) input = lit"
  show "matchLiteral lit input = Some (Success (drop (length lit) input, lit))"
    unfolding matchLiteral_eq using t by (simp only: simp_thms if_True)
  from t show "input = lit @ drop (length lit) input"
    by (rule take_eq_drop_append)
next
  assume "take (length lit) input \<noteq> lit"
  then show "matchLiteral lit input = Some (Failure input)"
    unfolding matchLiteral_eq by (simp only: if_False)
next
  assume "length input < length lit"
  then have "take (length lit) input \<noteq> lit" by (rule shorter_take_neq)
  then show "matchLiteral lit input = Some (Failure input)"
    unfolding matchLiteral_eq by (simp only: if_False)
qed

theorem matchLiteral_exact_witness:
  "matchLiteral ''a'' ''apoo'' = Some (Success (''poo'', ''a''))
   \<and> matchLiteral ''a'' ''poo'' = Some (Failure ''poo'')
   \<and> matchLiteral ''abc'' ''ab'' = Some (Failure ''ab'')"
  using matchLiteral_exact [of "''a''" "''apoo''"] matchLiteral_exact [of "''a''" "''poo''"]
    matchLiteral_exact [of "''abc''" "''ab''"]
  by simp

section \<open>Repetition\<close>

lemma zeroOrMore_loop_Some_Success:
  assumes run: "zeroOrMore_loop p nxt results = Some y"
  shows "\<exists>rest vs. y = Success (rest, vs)"
proof (rule zeroOrMore_loop.raw_induct
    [where P = "\<lambda>p nxt results y. \<exists>rest vs. y = Success (rest, vs)", OF _ run], goal_cases)
  case (1 loop p nxt results y)
  show ?case
  proof (cases "p nxt")
    case None
    with 1(2) show ?thesis by simp
  next
    case (Some r)
    show ?thesis
    proof (cases r)
      case (Failure e)
      with 1(2) Some show ?thesis by (auto simp add: parser_defs)
    next
      case (Success v)
      obtain rest a where v: "v = (rest, a)" by (cases v)
      from 1(2) Some Success v have "loop p rest (results @ [a]) = Some y" by simp
      then show ?thesis by (rule 1(1))
    qed
  qed
qed

lemma zeroOrMore_first_failure:
  assumes "p input = Some (Failure e)"
  shows "zeroOrMore p input = Some (Success (input, []))"
  unfolding zeroOrMore_def makeParser_def
  by (subst zeroOrMore_loop.simps) (simp add: assms parser_defs)

text \<open>
  Claim C6. \<^verbatim>\<open>zeroOrMore(p)\<close> never returns a failure, for every parser
  \<^verbatim>\<open>p\<close> and every input, the empty string included; and when the very
  first application of \<^verbatim>\<open>p\<close> fails, it succeeds with the input unchanged as
  the remainder and the empty list as the value.
\<close>

theorem zeroOrMore_never_fails:
  "zeroOrMore p input \<noteq> Some (Failure e)
   \<and> (p input = Some (Failure e') \<longrightarrow> zeroOrMore p input = Some (Success (input, [])))"
proof
  show "zeroOrMore p input \<noteq> Some (Failure e)"
  proof
    assume "zeroOrMore p input = Some (Failure e)"
    then have "zeroOrMore_loop p input [] = Some (Failure e)"
      by (simp add: zeroOrMore_def makeParser_def)
    from zeroOrMore_loop_Some_Success[OF this] show False by simp
  qed
  show "p input = Some (Failure e') \<longrightarrow> zeroOrMore p input = Some (Success (input, []))"
    by (simp add: zeroOrMore_first_failure)
qed

theorem zeroOrMore_never_fails_witness:
  "zeroOrMore (matchLiteral '' '') ''dog'' = Some (Success (''dog'', []))
   \<and> zeroOrMore anyChar '''' = Some (Success ('''', []))"
  using zeroOrMore_never_fails [where p = "matchLiteral '' ''" and input = "''dog''" and e' = "''dog''"]
    zeroOrMore_never_fails [where p = anyChar and input = "''''" and e' = "''''"]
  by (simp add: matchLiteral_eq anyChar_eq)

lemma oneOrMore_loop_imp_zeroOrMore_loop:
  assumes run: "oneOrMore_loop p nxt results = Some y"
  shows "zeroOrMore_loop p nxt results = Some y"
proof (rule oneOrMore_loop.raw_induct
    [where P = "\<lambda>p nxt results y. zeroOrMore_loop p nxt results = Some y", OF _ run], goal_cases)
  case (1 loop p nxt results y)
  show ?case
  proof (cases "p nxt")
    case None
    with 1(2) show ?thesis by simp
  next
    case (Some r)
    show ?thesis
    proof (cases r)
      case (Failure e)
      with 1(2) Some show ?thesis by (subst zeroOrMore_loop.simps) simp
    next
      case (Success v)
      obtain rest a where v: "v = (rest, a)" by (cases v)
      from 1(2) Some Success v have "loop p rest (results @ [a]) = Some y" by simp
      then have "zeroOrMore_loop p rest (results @ [a]) = Some y" by (rule 1(1))
      with Some Success v show ?thesis by (subst zeroOrMore_loop.simps) simp
    qed
  qed
qed

lemma zeroOrMore_loop_imp_oneOrMore_loop:
  assumes run: "zeroOrMore_loop p nxt results = Some y"
  shows "oneOrMore_loop p nxt results = Some y"
proof (rule zeroOrMore_loop.raw_induct
    [where P = "\<lambda>p nxt results y. oneOrMore_loop p nxt results = Some y", OF _ run], goal_cases)
  case (1 loop p nxt results y)
  show ?case
  proof (cases "p nxt")
    case None
    with 1(2) show ?thesis by simp
  next
    case (Some r)
    show ?thesis
    proof (cases r)
      case (Failure e)
      with 1(2) Some show ?thesis by (subst oneOrMore_loop.simps) simp
    next
      case (Success v)
      obtain rest a where v: "v = (rest, a)" by (cases v)
      from 1(2) Some Success v have "loop p rest (results @ [a]) = Some y" by simp
      then have "oneOrMore_loop p rest (results @ [a]) = Some y" by (rule 1(1))
      with Some Success v show ?thesis by (subst oneOrMore_loop.simps) simp
    qed
  qed
qed

lemma oneOrMore_loop_eq_zeroOrMore_loop:
  "oneOrMore_loop p nxt results = zeroOrMore_loop p nxt results"
proof (cases "oneOrMore_loop p nxt results")
  case None
  show ?thesis
  proof (cases "zeroOrMore_loop p nxt results")
    case None
    with \<open>oneOrMore_loop p nxt results = None\<close> show ?thesis by simp
  next
    case (Some y)
    then have "oneOrMore_loop p nxt results = Some y" by (rule zeroOrMore_loop_imp_oneOrMore_loop)
    with None show ?thesis by simp
  qed
next
  case (Some y)
  then have "zeroOrMore_loop p nxt results = Some y" by (rule oneOrMore_loop_imp_zeroOrMore_loop)
  with Some show ?thesis by simp
qed

text \<open>
  Claim C10. On every input on which \<^verbatim>\<open>p\<close> succeeds, \<^verbatim>\<open>oneOrMore(p)\<close> and
  \<^verbatim>\<open>zeroOrMore(p)\<close> return the same result (the same remainder and the same
  list of values, or neither returns): the two can differ only where the
  first application of \<^verbatim>\<open>p\<close> does not succeed.
\<close>

theorem oneOrMore_eq_zeroOrMore_after_first_success:
  "p input = Some (Success v) \<longrightarrow> oneOrMore p input = zeroOrMore p input"
proof
  assume first: "p input = Some (Success v)"
  obtain nxt a where v: "v = (nxt, a)" by (cases v)
  have "oneOrMore p input = oneOrMore_loop p nxt [a]"
    using first v by (simp add: oneOrMore_def makeParser_def)
  also have "\<dots> = zeroOrMore_loop p nxt [a]" by (rule oneOrMore_loop_eq_zeroOrMore_loop)
  also have "\<dots> = zeroOrMore_loop p input []"
    using first v by (subst (2) zeroOrMore_loop.simps) simp
  also have "\<dots> = zeroOrMore p input" by (simp add: zeroOrMore_def makeParser_def)
  finally show "oneOrMore p input = zeroOrMore p input" .
qed

lemma ex_dddd:
  "zeroOrMore (matchLiteral ''d'') ''ddddog'' = Some (Success (''og'', [''d'', ''d'', ''d'', ''d'']))"
  by (simp add: zeroOrMore_def zeroOrMore_loop.simps matchLiteral_eq parser_defs)

theorem oneOrMore_eq_zeroOrMore_after_first_success_witness:
  "oneOrMore (matchLiteral ''d'') ''ddddog'' = Some (Success (''og'', [''d'', ''d'', ''d'', ''d'']))
   \<and> zeroOrMore (matchLiteral ''d'') ''ddddog'' = Some (Success (''og'', [''d'', ''d'', ''d'', ''d'']))"
  using oneOrMore_eq_zeroOrMore_after_first_success
    [where p = "matchLiteral ''d''" and input = "''ddddog''" and v = "(''dddog'', ''d'')"]
  by (simp add: ex_dddd matchLiteral_eq)


section \<open>The markup grammar on an example\<close>

lemmas grammar_defs = singleElement_def openElement_def closeElement_def elementStart_def
  attributes_Parser_def attributePair_def quotedString_def stringBetween_def identifier_def
  alphaNumeric_def space1_def whitespace_def isAlphaNumeric_def trim_def isWhiteSpace_def

lemmas combinator_defs = map_Parser_def pair_def left_def right_def oneOrMore_def zeroOrMore_def
  pred_def either_def andThen_def

lemmas lexical_eval = grammar_defs combinator_defs parser_defs anyChar_eq matchLiteral_eq
  oneOrMore_loop.simps zeroOrMore_loop.simps

lemma ex_single_div:
  "singleElement ''<div class=\"float\"><img src=\"hello.jpg\"/></div>'' =
     Some (Failure ''><img src=\"hello.jpg\"/></div>'')"
  by (simp add: lexical_eval)

lemma ex_open_div:
  "openElement ''<div class=\"float\"><img src=\"hello.jpg\"/></div>'' =
     Some (Success (''<img src=\"hello.jpg\"/></div>'', Element ''div'' [(''class'', ''float'')] []))"
  by (simp add: lexical_eval)

lemma ex_single_img:
  "singleElement ''<img src=\"hello.jpg\"/></div>'' =
     Some (Success (''</div>'', Element ''img'' [(''src'', ''hello.jpg'')] []))"
  by (simp add: lexical_eval)

lemma ex_single_close: "singleElement ''</div>'' = Some (Failure ''/div>'')"
  by (simp add: lexical_eval)

lemma ex_open_close: "openElement ''</div>'' = Some (Failure ''/div>'')"
  by (simp add: lexical_eval)

lemma ex_close_div: "closeElement ''div'' ''</div>'' = Some (Success ('''', ''div''))"
  by (simp add: lexical_eval)

lemma ex_element_img:
  "element ''<img src=\"hello.jpg\"/></div>'' =
     Some (Success (''</div>'', Element ''img'' [(''src'', ''hello.jpg'')] []))"
  by (simp add: element_unfold either_def makeParser_def ex_single_img)

lemma ex_element_close: "element ''</div>'' = Some (Failure ''/div>'')"
  by (simp add: element_unfold parentElement_def either_def andThen_def makeParser_def
      ex_single_close ex_open_close)

lemma ex_children:
  "zeroOrMore element ''<img src=\"hello.jpg\"/></div>'' =
     Some (Success (''</div>'', [Element ''img'' [(''src'', ''hello.jpg'')] []]))"
  unfolding zeroOrMore_def makeParser_def
  apply (subst zeroOrMore_loop.simps)
  apply (simp only: ex_element_img option.case Result.case prod.case)
  apply (subst zeroOrMore_loop.simps)
  apply (simp add: ex_element_close success_def)
  done

text \<open>
  Claim C5. Running \<^verbatim>\<open>element()\<close> on
  \<^verbatim>\<open><div class="float"><img src="hello.jpg"/></div>\<close> returns a success
  with the empty string as the remainder and, as the value, the element
  \<^verbatim>\<open>div\<close> with the attributes \<^verbatim>\<open>[("class", "float")]\<close> and exactly one child,
  the element \<^verbatim>\<open>img\<close> with the attributes \<^verbatim>\<open>[("src", "hello.jpg")]\<close> and no
  children.
\<close>

theorem element_parses_nested_example:
  "runParser element ''<div class=\"float\"><img src=\"hello.jpg\"/></div>'' =
     Some (Success ('''',
       Element ''div'' [(''class'', ''float'')] [Element ''img'' [(''src'', ''hello.jpg'')] []]))"
  by (simp add: runParser_def element_unfold parentElement_def either_def andThen_def
      map_Parser_def left_def pair_def parser_defs ex_single_div ex_open_div ex_children ex_close_div)


section \<open>Consumption of the primitives\<close>

lemma consumes_anyChar: "consumes anyChar"
  by (auto simp: consumes_def anyChar_eq split: list.splits)

lemma take_eq_length_le: "take (length lit) input = lit \<Longrightarrow> length lit \<le> length input"
  using shorter_take_neq[of input lit] by (cases "length input < length lit") simp_all

lemma consumes_matchLiteral:
  assumes "lit \<noteq> []"
  shows "consumes (matchLiteral lit)"
  unfolding consumes_def
proof (intro allI impI)
  fix input rest a
  assume ok: "matchLiteral lit input = Some (Success (rest, a))"
  then have t: "take (length lit) input = lit" and r: "rest = drop (length lit) input"
    by (auto simp: matchLiteral_eq split: if_splits)
  from t have "length lit \<le> length input" by (rule take_eq_length_le)
  moreover from assms have "0 < length lit" by simp
  ultimately show "length rest < length input" unfolding r length_drop by arith
qed

lemma R_map_Failure_iff: "R_map r g = Failure e \<longleftrightarrow> r = Failure e"
  by (cases r) (simp_all add: success_def)

lemma R_map_Success_iff: "R_map r g = Success w \<longleftrightarrow> (\<exists>v. r = Success v \<and> w = g v)"
  by (cases r) (auto simp add: success_def)


lemma consumes_pred: "consumes p \<Longrightarrow> consumes (pred p predicate)"
  unfolding consumes_def pred_def parser_defs
  by (auto split: option.splits Result.splits if_splits)

text \<open>
  Claim C2, as amended. \<^verbatim>\<open>anyChar\<close> and \<^verbatim>\<open>matchLiteral(lit)\<close> for every
  non-empty \<^verbatim>\<open>lit\<close> never succeed without consuming: a success leaves a
  remainder strictly shorter than the input; and \<^verbatim>\<open>pred\<close> applied to a
  parser with this property has it too. \<^verbatim>\<open>matchLiteral("")\<close> succeeds on
  every input, with the whole input as the remainder.
\<close>

theorem primitives_consume:
  "consumes anyChar
   \<and> (lit \<noteq> [] \<longrightarrow> consumes (matchLiteral lit))
   \<and> (consumes p \<longrightarrow> consumes (pred p predicate))
   \<and> matchLiteral [] input = Some (Success (input, []))"
  by (simp add: consumes_anyChar consumes_matchLiteral consumes_pred matchLiteral_eq)

theorem primitives_consume_witness:
  "consumes (matchLiteral ''ab'') \<and> consumes (pred anyChar isAlphaNumeric)
   \<and> pred anyChar isAlphaNumeric ''a1'' = Some (Success (''1'', ''a''))
   \<and> matchLiteral '''' ''xyz'' = Some (Success (''xyz'', ''''))"
  using primitives_consume
    [where lit = "''ab''" and p = anyChar and predicate = isAlphaNumeric and input = "''xyz''"]
  by (simp add: pred_def anyChar_eq isAlphaNumeric_def parser_defs)

text \<open>
  The empty literal matches the empty prefix of every input: the remainder
  is the whole input.
\<close>

theorem matchLiteral_empty_consumes_nothing:
  "matchLiteral '''' ''abc'' = Some (Success (''abc'', '''')) \<and> \<not> length ''abc'' < length ''abc''"
  by (simp add: matchLiteral_eq)

text \<open>
  This is the parser on which the repetition loop does not end: every
  iteration succeeds on the same input, so \<^verbatim>\<open>zeroOrMore(matchLiteral(""))\<close>
  returns on no input.
\<close>

lemma zeroOrMore_loop_empty_literal:
  "zeroOrMore_loop (matchLiteral []) nxt results = None"
proof (cases "zeroOrMore_loop (matchLiteral []) nxt results")
  case None
  then show ?thesis .
next
  case (Some y)
  have "p \<noteq> matchLiteral []" if "zeroOrMore_loop p nxt results = Some y" for p
  proof (rule zeroOrMore_loop.raw_induct
      [where P = "\<lambda>p nxt results y. p \<noteq> matchLiteral []", OF _ that], goal_cases)
    case (1 loop p nxt results y)
    show ?case
    proof
      assume p: "p = matchLiteral []"
      then have "p nxt = Some (Success (nxt, []))" by (simp add: matchLiteral_eq)
      with 1(2) have "loop p nxt (results @ [[]]) = Some y" by simp
      then have "p \<noteq> matchLiteral []" by (rule 1(1))
      with p show False by simp
    qed
  qed
  from this[OF Some] show ?thesis by simp
qed

lemma zeroOrMore_empty_literal_never_returns:
  "zeroOrMore (matchLiteral []) input = None"
  by (simp add: zeroOrMore_def makeParser_def zeroOrMore_loop_empty_literal)


section \<open>The error of a failure\<close>

lemma fails_with_input_anyChar: "fails_with_input anyChar"
  by (auto simp: fails_with_input_def anyChar_eq split: list.splits)

lemma fails_with_input_matchLiteral: "fails_with_input (matchLiteral lit)"
  by (auto simp: fails_with_input_def matchLiteral_eq split: if_splits)

lemma fails_with_input_pred: "fails_with_input p \<Longrightarrow> fails_with_input (pred p predicate)"
  unfolding fails_with_input_def pred_def parser_defs
  by (auto split: option.splits Result.splits if_splits)

lemma fails_with_input_map: "fails_with_input p \<Longrightarrow> fails_with_input (map_Parser p f)"
  unfolding fails_with_input_def map_Parser_def parser_defs
  by (auto simp: R_map_Failure_iff split: option.splits)

lemma fails_with_input_either: "fails_with_input p2 \<Longrightarrow> fails_with_input (either p1 p2)"
  unfolding fails_with_input_def either_def parser_defs
  by (auto split: option.splits Result.splits)

lemma fails_with_input_zeroOrMore: "fails_with_input (zeroOrMore p)"
  unfolding fails_with_input_def zeroOrMore_def parser_defs
  by (auto dest: zeroOrMore_loop_Some_Success)

lemma fails_with_input_oneOrMore: "fails_with_input p \<Longrightarrow> fails_with_input (oneOrMore p)"
  unfolding fails_with_input_def oneOrMore_def parser_defs oneOrMore_loop_eq_zeroOrMore_loop
  by (auto split: option.splits Result.splits dest: zeroOrMore_loop_Some_Success)

lemma first_stage_failure:
  assumes "pA input = Some (Failure e)"
  shows "pair pA pB input = Some (Failure e)" and "left pA pB input = Some (Failure e)"
    and "right pA pB input = Some (Failure e)" and "andThen pA k input = Some (Failure e)"
  using assms by (simp_all add: pair_def left_def right_def andThen_def map_Parser_def parser_defs)

lemma second_stage_failure:
  assumes "pA input = Some (Success (rest, a))" and "pB rest = Some (Failure e)"
  shows "pair pA pB input = Some (Failure e)" and "left pA pB input = Some (Failure e)"
    and "right pA pB input = Some (Failure e)"
  using assms by (simp_all add: pair_def left_def right_def map_Parser_def parser_defs)

lemma andThen_second_stage_failure:
  assumes "pA input = Some (Success (rest, a))" and "k a rest = Some (Failure e)"
  shows "andThen pA k input = Some (Failure e)"
  using assms by (simp add: andThen_def parser_defs)

lemma zeroOrMore_no_failure: "zeroOrMore p input \<noteq> Some (Failure e)"
proof
  assume "zeroOrMore p input = Some (Failure e)"
  then have "zeroOrMore_loop p input [] = Some (Failure e)"
    by (simp add: zeroOrMore_def makeParser_def)
  from zeroOrMore_loop_Some_Success[OF this] show False by simp
qed

text \<open>
  Claim C1, as amended. The error of a failure is the input on which the
  failing stage was invoked: \<^verbatim>\<open>anyChar\<close> and \<^verbatim>\<open>matchLiteral(lit)\<close> fail with
  their own input; \<^verbatim>\<open>pred\<close>, \<^verbatim>\<open>map\<close> and \<^verbatim>\<open>oneOrMore\<close> fail with their
  own input when the parser they wrap does, \<^verbatim>\<open>either\<close> when its second
  parser does, and \<^verbatim>\<open>zeroOrMore\<close> never fails. \<^verbatim>\<open>pair\<close>, \<^verbatim>\<open>left\<close>,
  \<^verbatim>\<open>right\<close> and \<^verbatim>\<open>andThen\<close> return the failure of the stage that failed as
  it is: when their second stage fails, the error is the one that stage
  produced on the remainder left by the first stage, not the input of the
  composed parser.
\<close>

theorem failure_position:
  "fails_with_input anyChar
   \<and> fails_with_input (matchLiteral lit)
   \<and> (fails_with_input p \<longrightarrow> fails_with_input (pred p predicate))
   \<and> (fails_with_input p \<longrightarrow> fails_with_input (map_Parser p f))
   \<and> (fails_with_input p \<longrightarrow> fails_with_input (oneOrMore p))
   \<and> fails_with_input (zeroOrMore p)
   \<and> zeroOrMore p input \<noteq> Some (Failure e)
   \<and> (fails_with_input p2 \<longrightarrow> fails_with_input (either p1 p2))
   \<and> (pA input = Some (Failure e) \<longrightarrow>
        pair pA pB input = Some (Failure e) \<and> left pA pB input = Some (Failure e)
        \<and> right pA pB input = Some (Failure e) \<and> andThen pA k input = Some (Failure e))
   \<and> (pA input = Some (Success (rest, a)) \<and> pB rest = Some (Failure e) \<longrightarrow>
        pair pA pB input = Some (Failure e) \<and> left pA pB input = Some (Failure e)
        \<and> right pA pB input = Some (Failure e))
   \<and> (pA input = Some (Success (rest, a)) \<and> k a rest = Some (Failure e) \<longrightarrow>
        andThen pA k input = Some (Failure e))"
  by (intro conjI impI fails_with_input_anyChar fails_with_input_matchLiteral fails_with_input_pred
      fails_with_input_map fails_with_input_oneOrMore fails_with_input_zeroOrMore
      zeroOrMore_no_failure
      fails_with_input_either first_stage_failure second_stage_failure andThen_second_stage_failure;
      (elim conjE)?; assumption)

theorem failure_position_witness:
  "fails_with_input (pred (matchLiteral ''ab'') (\<lambda>a. False))
   \<and> fails_with_input (oneOrMore (matchLiteral ''ab''))
   \<and> fails_with_input (either (matchLiteral ''x'') anyChar)
   \<and> right (matchLiteral ''&'') (matchLiteral ''a'') ''&b'' = Some (Failure ''b'')
   \<and> andThen (matchLiteral ''&'') (\<lambda>c. matchLiteral c) ''&b'' = Some (Failure ''b'')"
  using failure_position
    [where lit = "''ab''" and p = "matchLiteral ''ab''" and predicate = "\<lambda>a. False"
      and f = "\<lambda>x. x" and ?p1.0 = "matchLiteral ''x''" and ?p2.0 = anyChar
      and pA = "matchLiteral ''&''" and pB = "matchLiteral ''a''" and k = "\<lambda>c. matchLiteral c"
      and input = "''&b''" and rest = "''b''" and a = "''&''" and e = "''b''"]
  by (simp add: matchLiteral_eq)

text \<open>
  \<^verbatim>\<open>pair(anyChar, anyChar)\<close> on \<^verbatim>\<open>"o"\<close>: the second stage fails on the
  empty remainder, and that remainder is the error, not \<^verbatim>\<open>"o"\<close>.
\<close>

theorem pair_fails_with_remainder:
  "pair anyChar anyChar ''o'' = Some (Failure '''') \<and> '''' \<noteq> ''o''"
  by (simp add: pair_def anyChar_eq parser_defs)


section \<open>Termination\<close>

lemma progressD:
  "progress p \<Longrightarrow> \<exists>r. p input = Some r \<and>
     (\<forall>rest a. r = Success (rest, a) \<longrightarrow> length rest < length input)"
  unfolding progress_def by (rule spec)

lemma steadyD:
  "steady p \<Longrightarrow> \<exists>r. p input = Some r \<and>
     (\<forall>rest a. r = Success (rest, a) \<longrightarrow> length rest \<le> length input)"
  unfolding steady_def by (rule spec)

lemma steady_Success:
  assumes "steady p" and ok: "p input = Some (Success (rest, a))"
  shows "length rest \<le> length input"
proof -
  from steadyD[OF assms(1), of input] obtain r where "p input = Some r"
    and l: "\<forall>rest a. r = Success (rest, a) \<longrightarrow> length rest \<le> length input" by blast
  with ok have "r = Success (rest, a)" by simp
  with l show ?thesis by blast
qed

lemma progress_Success:
  assumes "progress p" and ok: "p input = Some (Success (rest, a))"
  shows "length rest < length input"
proof -
  from progressD[OF assms(1), of input] obtain r where "p input = Some r"
    and l: "\<forall>rest a. r = Success (rest, a) \<longrightarrow> length rest < length input" by blast
  with ok have "r = Success (rest, a)" by simp
  with l show ?thesis by blast
qed

lemma progress_steady: "progress p \<Longrightarrow> steady p"
  unfolding progress_def steady_def by (meson less_imp_le)

lemma progress_anyChar: "progress anyChar"
  unfolding progress_def by (auto simp: anyChar_eq split: list.splits)

lemma steady_matchLiteral: "steady (matchLiteral lit)"
  unfolding steady_def by (auto simp: matchLiteral_eq)

lemma progress_matchLiteral:
  assumes "lit \<noteq> []"
  shows "progress (matchLiteral lit)"
  unfolding progress_def
proof
  fix input
  obtain r where r: "matchLiteral lit input = Some r" by (simp add: matchLiteral_eq)
  have "\<forall>rest a. r = Success (rest, a) \<longrightarrow> length rest < length input"
    using consumes_matchLiteral[OF assms] r unfolding consumes_def by blast
  with r show "\<exists>r. matchLiteral lit input = Some r \<and>
      (\<forall>rest a. r = Success (rest, a) \<longrightarrow> length rest < length input)" by blast
qed

lemma progress_pred: "progress p \<Longrightarrow> progress (pred p predicate)"
  unfolding progress_def pred_def parser_defs
proof
  fix input
  assume "\<forall>input. \<exists>r. p input = Some r \<and> (\<forall>rest a. r = Success (rest, a) \<longrightarrow> length rest < length input)"
  then obtain r where "p input = Some r" "\<forall>rest a. r = Success (rest, a) \<longrightarrow> length rest < length input"
    by blast
  then show "\<exists>r. (case p input of None \<Rightarrow> None | Some (Failure e) \<Rightarrow> Some (Failure e)
              | Some (Success (rest, a)) \<Rightarrow> if predicate a then Some (Success (rest, a)) else Some (Failure input)) = Some r \<and>
             (\<forall>rest a. r = Success (rest, a) \<longrightarrow> length rest < length input)"
    by (cases r) (auto split: prod.splits)
qed

lemma steady_map: "steady p \<Longrightarrow> steady (map_Parser p f)"
  unfolding steady_def map_Parser_def parser_defs
proof
  fix input
  assume "\<forall>input. \<exists>r. p input = Some r \<and> (\<forall>rest a. r = Success (rest, a) \<longrightarrow> length rest \<le> length input)"
  then obtain r where "p input = Some r" "\<forall>rest a. r = Success (rest, a) \<longrightarrow> length rest \<le> length input"
    by blast
  then show "\<exists>r. (case p input of None \<Rightarrow> None | Some r \<Rightarrow> Some (R_map r (\<lambda>(rest, a). (rest, f a)))) = Some r \<and>
             (\<forall>rest a. r = Success (rest, a) \<longrightarrow> length rest \<le> length input)"
    by (cases r) (auto simp: success_def)
qed

lemma progress_map: "progress p \<Longrightarrow> progress (map_Parser p f)"
  unfolding progress_def map_Parser_def parser_defs
proof
  fix input
  assume "\<forall>input. \<exists>r. p input = Some r \<and> (\<forall>rest a. r = Success (rest, a) \<longrightarrow> length rest < length input)"
  then obtain r where "p input = Some r" "\<forall>rest a. r = Success (rest, a) \<longrightarrow> length rest < length input"
    by blast
  then show "\<exists>r. (case p input of None \<Rightarrow> None | Some r \<Rightarrow> Some (R_map r (\<lambda>(rest, a). (rest, f a)))) = Some r \<and>
             (\<forall>rest a. r = Success (rest, a) \<longrightarrow> length rest < length input)"
    by (cases r) (auto simp: success_def)
qed

lemma pair_result:
  assumes a: "pA input = Some ra" and b: "\<And>s. \<exists>rb. pB s = Some rb"
  shows "\<exists>r. pair pA pB input = Some r \<and>
     (\<forall>rest v. r = Success (rest, v) \<longrightarrow>
        (\<exists>mid x y. ra = Success (mid, x) \<and> pB mid = Some (Success (rest, y))))"
proof (cases ra)
  case (Failure e)
  with a show ?thesis by (simp add: pair_def parser_defs)
next
  case (Success v)
  obtain mid x where v: "v = (mid, x)" by (cases v)
  from b[of mid] obtain rb where rb: "pB mid = Some rb" by blast
  show ?thesis
  proof (cases rb)
    case (Failure e)
    with a Success v rb show ?thesis by (simp add: pair_def parser_defs)
  next
    case (Success w)
    obtain rest y where w: "w = (rest, y)" by (cases w)
    with a \<open>ra = Success v\<close> v rb Success show ?thesis by (simp add: pair_def parser_defs)
  qed
qed

lemma steady_pair:
  assumes A: "steady pA" and B: "steady pB"
  shows "steady (pair pA pB)"
  unfolding steady_def
proof (intro allI)
  fix input
  from steadyD[OF A, of input] obtain ra where ra: "pA input = Some ra"
    and la: "\<And>rest a. ra = Success (rest, a) \<Longrightarrow> length rest \<le> length input" by blast
  have tot: "\<And>s. \<exists>rb. pB s = Some rb" using B unfolding steady_def by blast
  from pair_result[of pA input ra pB, OF ra tot] obtain r where r: "pair pA pB input = Some r"
    and mid: "\<And>rest v. r = Success (rest, v) \<Longrightarrow>
        \<exists>mid x y. ra = Success (mid, x) \<and> pB mid = Some (Success (rest, y))" by blast
  have "length rest \<le> length input" if "r = Success (rest, v)" for rest v
  proof -
    from mid[OF that] obtain mid x y where m: "ra = Success (mid, x)" "pB mid = Some (Success (rest, y))"
      by blast
    from la m(1) have "length mid \<le> length input" by blast
    moreover from B m(2) have "length rest \<le> length mid" by (rule steady_Success)
    ultimately show ?thesis by (rule le_trans[rotated])
  qed
  with r show "\<exists>r. pair pA pB input = Some r \<and>
      (\<forall>rest a. r = Success (rest, a) \<longrightarrow> length rest \<le> length input)" by blast
qed

lemma progress_pair_first:
  assumes A: "progress pA" and B: "steady pB"
  shows "progress (pair pA pB)"
  unfolding progress_def
proof (intro allI)
  fix input
  from progressD[OF A, of input] obtain ra where ra: "pA input = Some ra"
    and la: "\<And>rest a. ra = Success (rest, a) \<Longrightarrow> length rest < length input" by blast
  have tot: "\<And>s. \<exists>rb. pB s = Some rb" using B unfolding steady_def by blast
  from pair_result[of pA input ra pB, OF ra tot] obtain r where r: "pair pA pB input = Some r"
    and mid: "\<And>rest v. r = Success (rest, v) \<Longrightarrow>
        \<exists>mid x y. ra = Success (mid, x) \<and> pB mid = Some (Success (rest, y))" by blast
  have "length rest < length input" if "r = Success (rest, v)" for rest v
  proof -
    from mid[OF that] obtain mid x y where m: "ra = Success (mid, x)" "pB mid = Some (Success (rest, y))"
      by blast
    from la m(1) have "length mid < length input" by blast
    moreover from B m(2) have "length rest \<le> length mid" by (rule steady_Success)
    ultimately show ?thesis by (rule le_less_trans[rotated])
  qed
  with r show "\<exists>r. pair pA pB input = Some r \<and>
      (\<forall>rest a. r = Success (rest, a) \<longrightarrow> length rest < length input)" by blast
qed

lemma progress_pair_second:
  assumes A: "steady pA" and B: "progress pB"
  shows "progress (pair pA pB)"
  unfolding progress_def
proof (intro allI)
  fix input
  from steadyD[OF A, of input] obtain ra where ra: "pA input = Some ra"
    and la: "\<And>rest a. ra = Success (rest, a) \<Longrightarrow> length rest \<le> length input" by blast
  have tot: "\<And>s. \<exists>rb. pB s = Some rb" using B unfolding progress_def by blast
  from pair_result[of pA input ra pB, OF ra tot] obtain r where r: "pair pA pB input = Some r"
    and mid: "\<And>rest v. r = Success (rest, v) \<Longrightarrow>
        \<exists>mid x y. ra = Success (mid, x) \<and> pB mid = Some (Success (rest, y))" by blast
  have "length rest < length input" if "r = Success (rest, v)" for rest v
  proof -
    from mid[OF that] obtain mid x y where m: "ra = Success (mid, x)" "pB mid = Some (Success (rest, y))"
      by blast
    from la m(1) have "length mid \<le> length input" by blast
    moreover from B m(2) have "length rest < length mid" by (rule progress_Success)
    ultimately show ?thesis by (rule less_le_trans[rotated])
  qed
  with r show "\<exists>r. pair pA pB input = Some r \<and>
      (\<forall>rest a. r = Success (rest, a) \<longrightarrow> length rest < length input)" by blast
qed

lemma steady_left: "steady pA \<Longrightarrow> steady pB \<Longrightarrow> steady (left pA pB)"
  unfolding left_def by (intro steady_map steady_pair)

lemma steady_right: "steady pA \<Longrightarrow> steady pB \<Longrightarrow> steady (right pA pB)"
  unfolding right_def by (intro steady_map steady_pair)

lemma progress_left_first: "progress pA \<Longrightarrow> steady pB \<Longrightarrow> progress (left pA pB)"
  unfolding left_def by (intro progress_map progress_pair_first)

lemma progress_right_first: "progress pA \<Longrightarrow> steady pB \<Longrightarrow> progress (right pA pB)"
  unfolding right_def by (intro progress_map progress_pair_first)

lemma progress_right_second: "steady pA \<Longrightarrow> progress pB \<Longrightarrow> progress (right pA pB)"
  unfolding right_def by (intro progress_map progress_pair_second)


lemma steady_either: "steady p1 \<Longrightarrow> steady p2 \<Longrightarrow> steady (either p1 p2)"
  unfolding steady_def either_def makeParser_def
proof (intro allI)
  fix input
  assume A: "\<forall>input. \<exists>r. p1 input = Some r \<and> (\<forall>rest a. r = Success (rest, a) \<longrightarrow> length rest \<le> length input)"
    and B: "\<forall>input. \<exists>r. p2 input = Some r \<and> (\<forall>rest a. r = Success (rest, a) \<longrightarrow> length rest \<le> length input)"
  from A obtain r1 where r1: "p1 input = Some r1"
    "\<forall>rest a. r1 = Success (rest, a) \<longrightarrow> length rest \<le> length input" by blast
  from B obtain r2 where r2: "p2 input = Some r2"
    "\<forall>rest a. r2 = Success (rest, a) \<longrightarrow> length rest \<le> length input" by blast
  show "\<exists>r. (case p1 input of None \<Rightarrow> None | Some (Failure e) \<Rightarrow> p2 input
                | Some (Success v) \<Rightarrow> Some (Success v)) = Some r \<and>
             (\<forall>rest a. r = Success (rest, a) \<longrightarrow> length rest \<le> length input)"
    using r1 r2 by (cases r1) simp_all
qed

lemma progress_either: "progress p1 \<Longrightarrow> progress p2 \<Longrightarrow> progress (either p1 p2)"
  unfolding progress_def either_def makeParser_def
proof (intro allI)
  fix input
  assume A: "\<forall>input. \<exists>r. p1 input = Some r \<and> (\<forall>rest a. r = Success (rest, a) \<longrightarrow> length rest < length input)"
    and B: "\<forall>input. \<exists>r. p2 input = Some r \<and> (\<forall>rest a. r = Success (rest, a) \<longrightarrow> length rest < length input)"
  from A obtain r1 where r1: "p1 input = Some r1"
    "\<forall>rest a. r1 = Success (rest, a) \<longrightarrow> length rest < length input" by blast
  from B obtain r2 where r2: "p2 input = Some r2"
    "\<forall>rest a. r2 = Success (rest, a) \<longrightarrow> length rest < length input" by blast
  show "\<exists>r. (case p1 input of None \<Rightarrow> None | Some (Failure e) \<Rightarrow> p2 input
                | Some (Success v) \<Rightarrow> Some (Success v)) = Some r \<and>
             (\<forall>rest a. r = Success (rest, a) \<longrightarrow> length rest < length input)"
    using r1 r2 by (cases r1) simp_all
qed

lemma zeroOrMore_loop_returns:
  assumes tot: "\<And>s. length s \<le> n \<Longrightarrow>
      \<exists>r. p s = Some r \<and> (\<forall>rest a. r = Success (rest, a) \<longrightarrow> length rest < length s)"
  shows "length nxt \<le> n \<Longrightarrow>
     \<exists>rest vs. zeroOrMore_loop p nxt results = Some (Success (rest, vs)) \<and> length rest \<le> length nxt"
proof (induction "length nxt" arbitrary: nxt results rule: less_induct)
  case less
  from tot[OF less.prems] obtain r where r: "p nxt = Some r"
    and l: "\<forall>rest a. r = Success (rest, a) \<longrightarrow> length rest < length nxt" by blast
  show ?case
  proof (cases r)
    case (Failure e)
    with r have "zeroOrMore_loop p nxt results = Some (Success (nxt, results))"
      by (subst zeroOrMore_loop.simps) (simp add: parser_defs)
    then show ?thesis by simp
  next
    case (Success v)
    obtain rest a where v: "v = (rest, a)" by (cases v)
    with l Success have shorter: "length rest < length nxt" by simp
    with less.prems have "length rest \<le> n" by simp
    with shorter obtain rest' vs
      where run: "zeroOrMore_loop p rest (results @ [a]) = Some (Success (rest', vs))"
        and le: "length rest' \<le> length rest"
      using less.hyps[of rest "results @ [a]"] by blast
    from r Success v have "zeroOrMore_loop p nxt results = zeroOrMore_loop p rest (results @ [a])"
      by (subst zeroOrMore_loop.simps) simp
    with run have "zeroOrMore_loop p nxt results = Some (Success (rest', vs))" by simp
    moreover from le shorter have "length rest' \<le> length nxt" by simp
    ultimately show ?thesis by blast
  qed
qed

lemma steady_zeroOrMore:
  assumes "progress p"
  shows "steady (zeroOrMore p)"
  unfolding steady_def
proof (intro allI)
  fix input
  have "\<exists>rest vs. zeroOrMore_loop p input [] = Some (Success (rest, vs)) \<and> length rest \<le> length input"
    by (rule zeroOrMore_loop_returns[where n = "length input"]) (rule progressD[OF assms], rule le_refl)
  then show "\<exists>r. zeroOrMore p input = Some r \<and>
      (\<forall>rest a. r = Success (rest, a) \<longrightarrow> length rest \<le> length input)"
    by (auto simp: zeroOrMore_def makeParser_def)
qed

lemma progress_oneOrMore:
  assumes "progress p"
  shows "progress (oneOrMore p)"
  unfolding progress_def
proof (intro allI)
  fix input
  from progressD[OF assms, of input] obtain r where r: "p input = Some r"
    and l: "\<forall>rest a. r = Success (rest, a) \<longrightarrow> length rest < length input" by blast
  show "\<exists>r. oneOrMore p input = Some r \<and>
      (\<forall>rest a. r = Success (rest, a) \<longrightarrow> length rest < length input)"
  proof (cases r)
    case (Failure e)
    with r show ?thesis by (simp add: oneOrMore_def makeParser_def)
  next
    case (Success v)
    obtain nxt a where v: "v = (nxt, a)" by (cases v)
    with l Success have shorter: "length nxt < length input" by simp
    have "\<exists>rest vs. zeroOrMore_loop p nxt [a] = Some (Success (rest, vs)) \<and> length rest \<le> length nxt"
      by (rule zeroOrMore_loop_returns[where n = "length nxt"]) (rule progressD[OF assms], rule le_refl)
    then obtain rest vs where "zeroOrMore_loop p nxt [a] = Some (Success (rest, vs))"
      and "length rest \<le> length nxt" by blast
    with r Success v shorter show ?thesis
      by (simp add: oneOrMore_def makeParser_def oneOrMore_loop_eq_zeroOrMore_loop)
  qed
qed

lemma progress_identifier: "progress identifier"
  unfolding identifier_def alphaNumeric_def
  by (intro progress_map progress_oneOrMore progress_pred progress_anyChar)

lemma progress_space1: "progress space1"
  unfolding space1_def whitespace_def
  by (intro progress_oneOrMore progress_pred progress_anyChar)

lemma progress_stringBetween: "startChar \<noteq> [] \<Longrightarrow> progress (stringBetween startChar endChar)"
  unfolding stringBetween_def
  by (intro progress_map progress_right_first progress_matchLiteral steady_left steady_zeroOrMore
      progress_pred progress_anyChar steady_matchLiteral)

lemma progress_attributePair: "progress attributePair"
  unfolding attributePair_def quotedString_def
  by (intro progress_pair_first progress_identifier steady_right steady_matchLiteral
      progress_steady progress_stringBetween) simp

lemma steady_attributes: "steady attributes_Parser"
  unfolding attributes_Parser_def
  by (intro steady_zeroOrMore progress_right_first progress_space1 progress_steady progress_attributePair)

lemma progress_elementStart: "progress elementStart"
  unfolding elementStart_def
  by (intro progress_right_first progress_matchLiteral steady_pair progress_steady
      progress_identifier steady_attributes) simp

lemma progress_singleElement: "progress singleElement"
  unfolding singleElement_def
  by (intro progress_map progress_left_first progress_elementStart steady_matchLiteral)

lemma progress_openElement: "progress openElement"
  unfolding openElement_def
  by (intro progress_map progress_left_first progress_elementStart steady_matchLiteral)

lemma progress_closeElement: "progress (closeElement expectedName)"
  unfolding closeElement_def
  by (intro progress_pred progress_right_first progress_matchLiteral steady_left progress_steady
      progress_identifier steady_matchLiteral) simp


lemma parentElement_of_element: "parentElement = parentElement_of element"
  by (simp add: parentElement_def parentElement_of_def)

lemma element_rule: "element input = either singleElement (parentElement_of element) input"
  unfolding parentElement_of_def by (rule element.simps)

lemma element_rule_mono:
  "mono_option (\<lambda>f. either singleElement (parentElement_of f) input)"
  unfolding parentElement_of_def
  by (intro either_mono andThen_mono map_Parser_mono left_mono zeroOrMore_mono
      option.const_mono call_mono)

lemma element_stack_below: "option_ord (element_stack d input) (element input)"
proof (induction d arbitrary: input)
  case 0
  show ?case by (simp add: option_ord_None)
next
  case (Suc d)
  have "fun_ord option_ord (element_stack d) element"
    unfolding fun_ord_def using Suc by blast
  from element_rule_mono[of input, THEN monotoneD, OF this]
  show ?case by (simp add: element_rule[symmetric])
qed

lemma parentElement_of_after_open:
  assumes op: "openElement input = Some (Success (nxt, el))"
    and kids: "zeroOrMore elem nxt = Some (Success (rest, vs))"
    and cl: "closeElement (name el) rest = Some rc"
  shows "parentElement_of elem input =
     Some (case rc of Failure e \<Rightarrow> Failure e
           | Success (rest', nm) \<Rightarrow> Success (rest', Element (name el) (attributes el) vs))"
  using assms
  by (cases rc)
    (auto simp: parentElement_of_def andThen_def map_Parser_def left_def pair_def parser_defs)

lemma element_rule_progress:
  assumes inner: "\<And>s. length s < length input \<Longrightarrow>
      \<exists>r. elem s = Some r \<and> (\<forall>rest a. r = Success (rest, a) \<longrightarrow> length rest < length s)"
  shows "\<exists>r. either singleElement (parentElement_of elem) input = Some r \<and>
     (\<forall>rest a. r = Success (rest, a) \<longrightarrow> length rest < length input)"
proof -
  from progressD[OF progress_singleElement, of input] obtain rs
    where rs: "singleElement input = Some rs"
      and ls: "\<forall>rest a. rs = Success (rest, a) \<longrightarrow> length rest < length input" by blast
  show ?thesis
  proof (cases rs)
    case (Success v)
    with rs have "either singleElement (parentElement_of elem) input = Some (Success v)"
      by (simp add: either_def makeParser_def)
    with ls Success show ?thesis by simp
  next
    case (Failure e)
    with rs have el: "either singleElement (parentElement_of elem) input = parentElement_of elem input"
      by (simp add: either_def makeParser_def)
    from progressD[OF progress_openElement, of input] obtain ro
      where ro: "openElement input = Some ro"
        and lo: "\<forall>rest a. ro = Success (rest, a) \<longrightarrow> length rest < length input" by blast
    show ?thesis
    proof (cases ro)
      case (Failure e')
      with ro have "parentElement_of elem input = Some (Failure e')"
        by (simp add: parentElement_of_def andThen_def makeParser_def)
      with el show ?thesis by simp
    next
      case (Success w)
      obtain nxt opened where w: "w = (nxt, opened)" by (cases w)
      with lo Success have shorter: "length nxt < length input" by simp
      have below: "\<exists>r. elem s = Some r \<and>
          (\<forall>rest a. r = Success (rest, a) \<longrightarrow> length rest < length s)"
        if "length s \<le> length nxt" for s
        using that shorter by (intro inner) simp
      have "\<exists>rest vs. zeroOrMore_loop elem nxt [] = Some (Success (rest, vs))
          \<and> length rest \<le> length nxt"
        by (rule zeroOrMore_loop_returns[where n = "length nxt"]) (rule below, assumption, rule le_refl)
      then obtain rest vs where kids: "zeroOrMore elem nxt = Some (Success (rest, vs))"
        and lk: "length rest \<le> length nxt"
        by (auto simp: zeroOrMore_def makeParser_def)
      from progressD[OF progress_closeElement, of "name opened" rest] obtain rc
        where rc: "closeElement (name opened) rest = Some rc"
          and lc: "\<forall>rest' a. rc = Success (rest', a) \<longrightarrow> length rest' < length rest" by blast
      from ro Success w have op: "openElement input = Some (Success (nxt, opened))" by simp
      note pe = parentElement_of_after_open[OF op kids rc]
      show ?thesis
      proof (cases rc)
        case (Failure e'')
        with pe el show ?thesis by simp
      next
        case (Success u)
        obtain rest' nm where u: "u = (rest', nm)" by (cases u)
        with lc Success have "length rest' < length rest" by simp
        with lk shorter have "length rest' < length input" by simp
        with pe el Success u show ?thesis by simp
      qed
    qed
  qed
qed

lemma element_progress_step:
  "\<exists>r. element input = Some r \<and>
     (\<forall>rest a. r = Success (rest, a) \<longrightarrow> length rest < length input)"
proof (induction "length input" arbitrary: input rule: less_induct)
  case less
  have "\<exists>r. either singleElement (parentElement_of element) input = Some r \<and>
     (\<forall>rest a. r = Success (rest, a) \<longrightarrow> length rest < length input)"
    by (rule element_rule_progress) (rule less.hyps)
  then show ?case by (simp add: element_rule[symmetric])
qed

lemma element_stack_progress:
  "length input < d \<Longrightarrow>
     \<exists>r. element_stack d input = Some r \<and>
       (\<forall>rest a. r = Success (rest, a) \<longrightarrow> length rest < length input)"
proof (induction d arbitrary: input)
  case 0
  then show ?case by simp
next
  case (Suc d)
  have "\<exists>r. either singleElement (parentElement_of (element_stack d)) input = Some r \<and>
     (\<forall>rest a. r = Success (rest, a) \<longrightarrow> length rest < length input)"
  proof (rule element_rule_progress)
    fix s :: string
    assume "length s < length input"
    with Suc.prems have "length s < d" by simp
    then show "\<exists>r. element_stack d s = Some r \<and>
        (\<forall>rest a. r = Success (rest, a) \<longrightarrow> length rest < length s)" by (rule Suc.IH)
  qed
  then show ?case by simp
qed

lemma element_stack_enough:
  assumes "length input < d"
  shows "element_stack d input = element input"
proof -
  from element_stack_progress[OF assms] obtain r where r: "element_stack d input = Some r" by blast
  from element_stack_below r have "element input = Some r" by (rule option_ord_Some)
  with r show ?thesis by simp
qed

lemma element_stack_result_or_none:
  "element_stack d input = element input \<or> element_stack d input = None"
  using element_stack_below[of d input] by (auto simp: flat_ord_def)

lemma singleElement_open_tag:
  "singleElement (''<a>'' @ u) = Some (Failure (''>'' @ u))"
  by (simp add: lexical_eval)

lemma openElement_open_tag:
  "openElement (''<a>'' @ u) = Some (Success (u, Element ''a'' [] []))"
  by (simp add: lexical_eval)

lemma parentElement_of_no_return:
  assumes "openElement input = Some (Success (nxt, el))" and "elem nxt = None"
  shows "parentElement_of elem input = None"
proof -
  from assms(2) have "zeroOrMore elem nxt = None"
    unfolding zeroOrMore_def makeParser_def by (subst zeroOrMore_loop.simps) simp
  with assms(1) show ?thesis
    by (simp add: parentElement_of_def andThen_def map_Parser_def left_def pair_def parser_defs)
qed

lemma element_stack_exhausted:
  "d \<le> n \<Longrightarrow> element_stack d (concat (replicate n ''<a>'') @ t) = None"
proof (induction d arbitrary: n)
  case 0
  show ?case by simp
next
  case (Suc d)
  then obtain m where n: "n = Suc m" and dm: "d \<le> m" by (cases n) auto
  let ?u = "concat (replicate m ''<a>'') @ t"
  have input: "concat (replicate n ''<a>'') @ t = ''<a>'' @ ?u" by (simp add: n)
  have "element_stack d ?u = None" using dm by (rule Suc.IH)
  with openElement_open_tag[of ?u] have "parentElement_of (element_stack d) (''<a>'' @ ?u) = None"
    by (rule parentElement_of_no_return)
  then show ?case
    unfolding input by (simp add: either_def makeParser_def singleElement_open_tag del: append.simps)
qed

lemma ex_small_single: "singleElement ''<a><b/></a>'' = Some (Failure ''><b/></a>'')"
  by (simp add: lexical_eval)

lemma ex_small_open:
  "openElement ''<a><b/></a>'' = Some (Success (''<b/></a>'', Element ''a'' [] []))"
  by (simp add: lexical_eval)

lemma ex_small_child: "singleElement ''<b/></a>'' = Some (Success (''</a>'', Element ''b'' [] []))"
  by (simp add: lexical_eval)

lemma ex_small_single_close: "singleElement ''</a>'' = Some (Failure ''/a>'')"
  by (simp add: lexical_eval)

lemma ex_small_open_close: "openElement ''</a>'' = Some (Failure ''/a>'')"
  by (simp add: lexical_eval)

lemma ex_small_close: "closeElement ''a'' ''</a>'' = Some (Success ('''', ''a''))"
  by (simp add: lexical_eval)

lemma ex_small_children:
  "zeroOrMore element ''<b/></a>'' = Some (Success (''</a>'', [Element ''b'' [] []]))"
proof -
  have child: "element ''<b/></a>'' = Some (Success (''</a>'', Element ''b'' [] []))"
    by (simp add: element_rule either_def makeParser_def ex_small_child)
  have stop: "element ''</a>'' = Some (Failure ''/a>'')"
    by (simp add: element_rule parentElement_of_def either_def andThen_def makeParser_def
        ex_small_single_close ex_small_open_close)
  show ?thesis
    unfolding zeroOrMore_def makeParser_def
    apply (subst zeroOrMore_loop.simps)
    apply (simp only: child option.case Result.case prod.case)
    apply (subst zeroOrMore_loop.simps)
    apply (simp add: stop success_def)
    done
qed

lemma ex_small_element:
  "element ''<a><b/></a>'' = Some (Success ('''', Element ''a'' [] [Element ''b'' [] []]))"
  by (simp add: element_rule parentElement_of_def either_def andThen_def map_Parser_def left_def
      pair_def parser_defs ex_small_single ex_small_open ex_small_children ex_small_close)





end
